theory Spec2Isabelle
  imports Complex_Main "HOL-Library.Word"
begin

unbundle bit_operations_syntax

section \<open>Python values used by \<open>backend/app.py\<close>\<close>

text \<open>
  Exceptions are values. The string is the message (\<open>str(e)\<close>), which the route
  \<open>/api/encode\<close> sends back to the client.
\<close>

datatype py_error =
    ValueError string
  | OverflowError string
  | ZeroDivisionError string
  | IndexError string
  | TypeError string
  | AttributeError string

subsection \<open>Floats\<close>

text \<open>
  A Python \<open>float\<close> is an IEEE-754 binary64 value: a finite number (kept here as the
  rational it denotes), an infinity or a NaN. The sign of zero is not kept: the code
  under study never observes it (\<open>-0.0 == 0\<close> holds, \<open>round(-0.0)\<close> is \<open>0\<close>).
\<close>

datatype pyfloat = Fin rat | PInf | NInf | NaN

text \<open>Number of binary digits of a natural number (\<open>int.bit_length()\<close>).\<close>

fun bit_length :: "nat \<Rightarrow> nat" where
  "bit_length n = (if n = 0 then 0 else Suc (bit_length (n div 2)))"

declare bit_length.simps [simp del]

text \<open>\<open>flog2 x\<close> is the integer \<open>k\<close> with \<open>2^k \<le> x < 2^(k+1)\<close>, for \<open>x > 0\<close>.\<close>

definition flog2 :: "rat \<Rightarrow> int" where
  "flog2 x =
     (let (p, q) = quotient_of x;
          k = int (bit_length (nat p)) - int (bit_length (nat q))
      in if 2 powi k \<le> x then k else k - 1)"

text \<open>
  Rounding to the nearest integer, ties to the even one. This is what Python's
  \<open>round(x)\<close> computes for a finite float \<open>x\<close> (one argument, result an \<open>int\<close>).
\<close>

definition round_half_even :: "rat \<Rightarrow> int" where
  "round_half_even q =
     (let f = \<lfloor>q\<rfloor>; d = q - of_int f
      in if d < 1 / 2 then f
         else if 1 / 2 < d then f + 1
         else if even f then f else f + 1)"

text \<open>
  The result of an arithmetic operation is the exact result rounded to the nearest
  binary64 value, ties to even: 53 significant bits, least exponent \<open>-1074\<close>
  (subnormals), and an infinity once the rounded magnitude reaches \<open>2^1024\<close>.
\<close>

definition round_to_double :: "rat \<Rightarrow> pyfloat" where
  "round_to_double x =
     (if x = 0 then Fin 0
      else
        let e = max (flog2 \<bar>x\<bar> - 52) (- 1074);
            m = round_half_even (\<bar>x\<bar> / 2 powi e);
            y = of_int m * 2 powi e
        in if 2 ^ 1024 \<le> y then (if 0 < x then PInf else NInf)
           else Fin (sgn x * y))"

text \<open>A rational is a binary64 value when rounding leaves it as it is.\<close>

definition is_double :: "rat \<Rightarrow> bool" where
  "is_double x \<longleftrightarrow> round_to_double x = Fin x"

text \<open>\<open>a - b\<close> on floats. It never raises.\<close>

fun py_sub :: "pyfloat \<Rightarrow> pyfloat \<Rightarrow> pyfloat" where
  "py_sub (Fin a) (Fin b) = round_to_double (a - b)"
| "py_sub NaN _ = NaN"
| "py_sub _ NaN = NaN"
| "py_sub PInf PInf = NaN"
| "py_sub NInf NInf = NaN"
| "py_sub PInf _ = PInf"
| "py_sub NInf _ = NInf"
| "py_sub (Fin a) PInf = NInf"
| "py_sub (Fin a) NInf = PInf"

text \<open>\<open>a / b\<close> on floats: \<open>ZeroDivisionError\<close> for a zero divisor, otherwise IEEE.\<close>

fun py_truediv :: "pyfloat \<Rightarrow> pyfloat \<Rightarrow> py_error + pyfloat" where
  "py_truediv a (Fin b) =
     (if b = 0 then Inl (ZeroDivisionError ''float division by zero'')
      else case a of
             Fin x \<Rightarrow> Inr (round_to_double (x / b))
           | PInf \<Rightarrow> Inr (if 0 < b then PInf else NInf)
           | NInf \<Rightarrow> Inr (if 0 < b then NInf else PInf)
           | NaN \<Rightarrow> Inr NaN)"
| "py_truediv a NaN = Inr NaN"
| "py_truediv (Fin x) b = Inr (Fin 0)"
| "py_truediv a b = Inr NaN"

text \<open>\<open>round(x)\<close> with one argument: an \<open>int\<close>, or an exception for infinities and NaN.\<close>

fun py_round :: "pyfloat \<Rightarrow> py_error + int" where
  "py_round (Fin q) = Inr (round_half_even q)"
| "py_round NaN = Inl (ValueError ''cannot convert float NaN to integer'')"
| "py_round _ = Inl (OverflowError ''cannot convert float infinity to integer'')"

section \<open>\<open>J1939Encoder\<close>\<close>

subsection \<open>\<open>calculate_can_id\<close>\<close>

text \<open>Python integers are unbounded: \<open>int\<close>, with \<open>>>\<close>, \<open><<\<close>, \<open>&\<close> and \<open>|\<close> as on two's complement.\<close>

definition calculate_can_id :: "int \<Rightarrow> int \<Rightarrow> int" where
  "calculate_can_id pgn source_address =
     (let priority = 6;
          pdu_format = drop_bit 8 pgn AND 0xFF;
          pdu_specific = (if pgn < 0xF000 then pgn AND 0xFF else 0xFF);
          can_id = push_bit 26 (priority AND 0x7);
          can_id = can_id OR push_bit 25 (0 AND 0x1);
          can_id = can_id OR push_bit 24 (0 AND 0x1);
          can_id = can_id OR push_bit 16 (pdu_format AND 0xFF);
          can_id = can_id OR push_bit 8 (pdu_specific AND 0xFF);
          can_id = can_id OR (source_address AND 0xFF)
      in can_id)"

subsection \<open>\<open>physical_to_raw\<close>\<close>

definition physical_to_raw :: "pyfloat \<Rightarrow> pyfloat \<Rightarrow> pyfloat \<Rightarrow> py_error + int" where
  "physical_to_raw physical_value resolution offset =
     (if resolution = Fin 0 then Inl (ValueError ''Resolution cannot be zero'')
      else case py_truediv (py_sub physical_value offset) resolution of
             Inl e \<Rightarrow> Inl e
           | Inr q \<Rightarrow> (case py_round q of
                         Inl e \<Rightarrow> Inl e
                       | Inr raw \<Rightarrow> Inr (max 0 raw)))"

subsection \<open>\<open>encode_value\<close>\<close>

text \<open>
  A \<open>bytearray\<close> is a list of integers. Indexing follows Python: a negative index counts
  from the end, an index outside the array raises \<open>IndexError\<close>, and a stored value
  must be in \<open>range(256)\<close>.
\<close>

definition bytearray_index :: "int list \<Rightarrow> int \<Rightarrow> py_error + nat" where
  "bytearray_index data i =
     (let n = int (length data); j = (if i < 0 then i + n else i)
      in if 0 \<le> j \<and> j < n then Inr (nat j)
         else Inl (IndexError ''bytearray index out of range''))"

definition bytearray_store :: "int list \<Rightarrow> nat \<Rightarrow> int \<Rightarrow> py_error + int list" where
  "bytearray_store data j v =
     (if 0 \<le> v \<and> v < 256 then Inr (data[j := v])
      else Inl (ValueError ''byte must be in range(0, 256)''))"

text \<open>The body of the loop \<open>for i in range(length_bits)\<close>.\<close>

definition encode_bit :: "int \<Rightarrow> int \<Rightarrow> int \<Rightarrow> int list \<Rightarrow> nat \<Rightarrow> py_error + int list" where
  "encode_bit raw_value byte_idx bit_idx data i =
     (let bit_value = drop_bit i raw_value AND 0x01;
          current_byte = byte_idx + (bit_idx + int i) div 8;
          current_bit = (bit_idx + int i) mod 8
      in case bytearray_index data current_byte of
           Inl e \<Rightarrow> Inl e
         | Inr j \<Rightarrow>
             if bit_value \<noteq> 0
             then bytearray_store data j (data ! j OR push_bit (nat current_bit) 1)
             else bytearray_store data j (data ! j AND NOT (push_bit (nat current_bit) 1)))"

fun encode_loop :: "int \<Rightarrow> int \<Rightarrow> int \<Rightarrow> nat list \<Rightarrow> int list \<Rightarrow> py_error + int list" where
  "encode_loop raw_value byte_idx bit_idx [] data = Inr data"
| "encode_loop raw_value byte_idx bit_idx (i # rest) data =
     (case encode_bit raw_value byte_idx bit_idx data i of
        Inl e \<Rightarrow> Inl e
      | Inr data' \<Rightarrow> encode_loop raw_value byte_idx bit_idx rest data')"

text \<open>\<open>1 << length_bits\<close> raises \<open>ValueError\<close> for a negative count.\<close>

definition encode_value :: "int \<Rightarrow> int \<Rightarrow> int \<Rightarrow> int \<Rightarrow> py_error + int list" where
  "encode_value raw_value start_byte start_bit length_bits =
     (let data = replicate 8 0;
          byte_idx = start_byte - 1;
          bit_idx = start_bit - 1
      in if length_bits < 0 then Inl (ValueError ''negative shift count'')
         else
           let max_value = push_bit (nat length_bits) 1 - 1;
               raw_value = (if raw_value > max_value then max_value else raw_value)
           in encode_loop raw_value byte_idx bit_idx [0..<nat length_bits] data)"

subsection \<open>Formatting integers\<close>

definition hex_digit :: "nat \<Rightarrow> char" where
  "hex_digit d = ''0123456789ABCDEF'' ! d"

fun digits :: "nat \<Rightarrow> nat \<Rightarrow> string" where
  "digits base n =
     (if base < 2 \<or> n < base then [hex_digit n]
      else digits base (n div base) @ [hex_digit (n mod base)])"

declare digits.simps [simp del]

definition zero_pad :: "nat \<Rightarrow> string \<Rightarrow> string" where
  "zero_pad width s = replicate (width - length s) CHR ''0'' @ s"

text \<open>
  \<open>format(n, '0{width}X')\<close> and \<open>format(n, '0{width}b')\<close>: zero padding after the sign.
  A negative width is not a valid format specification.
\<close>

definition format_int :: "nat \<Rightarrow> int \<Rightarrow> int \<Rightarrow> py_error + string" where
  "format_int base width n =
     (if width < 0 then Inl (ValueError ''Invalid format specifier'')
      else if n < 0 then Inr (CHR ''-'' # zero_pad (nat width - 1) (digits base (nat (- n))))
      else Inr (zero_pad (nat width) (digits base (nat n))))"

text \<open>\<open>data.hex().upper()\<close>: two digits for each byte.\<close>

definition bytes_hex_upper :: "int list \<Rightarrow> string" where
  "bytes_hex_upper data = concat (map (\<lambda>b. zero_pad 2 (digits 16 (nat b))) data)"

subsection \<open>\<open>encode_spn\<close>\<close>

text \<open>
  A signal definition is a dictionary. The keys that \<open>encode_spn\<close> reads with
  \<open>.get(key, default)\<close> may be absent, so they are optional here.
\<close>

record spn_config =
  cfg_pgn :: "int option"
  cfg_spn :: "int option"
  cfg_name :: string
  cfg_resolution :: "pyfloat option"
  cfg_offset :: "pyfloat option"
  cfg_unit :: "string option"
  cfg_transmission_rate :: int
  cfg_min_physical :: pyfloat
  cfg_max_physical :: pyfloat
  cfg_start_byte :: "int option"
  cfg_start_bit :: "int option"
  cfg_length_bits :: "int option"

record frame =
  physical_value :: pyfloat
  raw_value :: int
  raw_hex :: string
  raw_binary :: string
  data_bytes :: string
  data_array :: "int list"
  can_id :: int
  can_id_hex :: string
  pgn :: int
  pgn_hex :: string
  spn :: "int option"
  resolution :: pyfloat
  offset :: pyfloat
  unit_name :: string

definition get_default :: "'a option \<Rightarrow> 'a \<Rightarrow> 'a" where
  "get_default v d = (case v of None \<Rightarrow> d | Some x \<Rightarrow> x)"

definition encode_spn :: "pyfloat \<Rightarrow> spn_config \<Rightarrow> py_error + frame" where
  "encode_spn pv spn_config =
     (let res = get_default (cfg_resolution spn_config) (Fin 1);
          off = get_default (cfg_offset spn_config) (Fin 0);
          start_byte = get_default (cfg_start_byte spn_config) 1;
          start_bit = get_default (cfg_start_bit spn_config) 1;
          length_bits = get_default (cfg_length_bits spn_config) 8
      in case physical_to_raw pv res off of
           Inl e \<Rightarrow> Inl e
         | Inr raw \<Rightarrow>
            (case encode_value raw start_byte start_bit length_bits of
               Inl e \<Rightarrow> Inl e
             | Inr data \<Rightarrow>
                (let p = get_default (cfg_pgn spn_config) 0;
                     cid = calculate_can_id p 0
                 in case format_int 16 0 raw of
                      Inl e \<Rightarrow> Inl e
                    | Inr rhex \<Rightarrow>
                       (case format_int 2 length_bits raw of
                          Inl e \<Rightarrow> Inl e
                        | Inr rbin \<Rightarrow>
                           (case format_int 16 8 cid of
                              Inl e \<Rightarrow> Inl e
                            | Inr chex \<Rightarrow>
                               (case format_int 16 4 p of
                                  Inl e \<Rightarrow> Inl e
                                | Inr phex \<Rightarrow>
                                    Inr \<lparr> physical_value = pv,
                                          raw_value = raw,
                                          raw_hex = ''0x'' @ rhex,
                                          raw_binary = rbin,
                                          data_bytes = bytes_hex_upper data,
                                          data_array = data,
                                          can_id = cid,
                                          can_id_hex = ''0x'' @ chex,
                                          pgn = p,
                                          pgn_hex = ''0x'' @ phex,
                                          spn = cfg_spn spn_config,
                                          resolution = res,
                                          offset = off,
                                          unit_name = get_default (cfg_unit spn_config) [] \<rparr>))))))"

section \<open>The live signals\<close>

text \<open>
  \<open>LIVE_SIGNALS\<close> in declaration order. \<open>250.996\<close> is the binary64 value nearest to
  that decimal; every other number of the table is a binary64 value as written.
\<close>

definition engine_speed :: spn_config where
  "engine_speed =
       \<lparr> cfg_pgn = Some 61444, cfg_spn = Some 190, cfg_name = ''Engine Speed'',
         cfg_resolution = Some (Fin (1 / 8)), cfg_offset = Some (Fin 0),
         cfg_unit = Some ''rpm'', cfg_transmission_rate = 50,
         cfg_min_physical = Fin 0, cfg_max_physical = Fin (8031875 / 1000),
         cfg_start_byte = Some 4, cfg_start_bit = Some 1, cfg_length_bits = Some 16 \<rparr>"

definition vehicle_speed :: spn_config where
  "vehicle_speed =
       \<lparr> cfg_pgn = Some 65265, cfg_spn = Some 84, cfg_name = ''Vehicle Speed'',
         cfg_resolution = Some (Fin (1 / 256)), cfg_offset = Some (Fin 0),
         cfg_unit = Some ''km/h'', cfg_transmission_rate = 100,
         cfg_min_physical = Fin 0,
         cfg_max_physical = Fin (8831136656808477 / 35184372088832),
         cfg_start_byte = Some 2, cfg_start_bit = Some 1, cfg_length_bits = Some 16 \<rparr>"

definition cab_temperature :: spn_config where
  "cab_temperature =
       \<lparr> cfg_pgn = Some 65269, cfg_spn = Some 170, cfg_name = ''Cab Temperature'',
         cfg_resolution = Some (Fin (1 / 32)), cfg_offset = Some (Fin (- 273)),
         cfg_unit = Some [CHR 0xC2, CHR 0xB0, CHR ''C''], cfg_transmission_rate = 1000,
         cfg_min_physical = Fin (- 273), cfg_max_physical = Fin 1735,
         cfg_start_byte = Some 2, cfg_start_bit = Some 1, cfg_length_bits = Some 16 \<rparr>"

definition driver_torque :: spn_config where
  "driver_torque =
       \<lparr> cfg_pgn = Some 61444, cfg_spn = Some 512, cfg_name = ''Driver Torque'',
         cfg_resolution = Some (Fin 1), cfg_offset = Some (Fin (- 125)),
         cfg_unit = Some ''%'', cfg_transmission_rate = 50,
         cfg_min_physical = Fin (- 125), cfg_max_physical = Fin 125,
         cfg_start_byte = Some 2, cfg_start_bit = Some 1, cfg_length_bits = Some 8 \<rparr>"

definition LIVE_SIGNALS :: "(string \<times> spn_config) list" where
  "LIVE_SIGNALS =
     [(''engine_speed'', engine_speed),
      (''vehicle_speed'', vehicle_speed),
      (''cab_temperature'', cab_temperature),
      (''driver_torque'', driver_torque)]"

section \<open>The route \<open>/api/encode\<close>\<close>

text \<open>
  The values a JSON body can hold under the keys \<open>signal_id\<close> and \<open>physical_value\<close>.
  The contents of a list or an object are never read by the route.
\<close>

datatype json = JNull | JBool bool | JInt int | JFloat pyfloat | JStr string | JArray | JObject

text \<open>A name or a string between single quotes, as Python prints it in a message.\<close>

definition quoted :: "string \<Rightarrow> string" where
  "quoted s = CHR 0x27 # s @ [CHR 0x27]"

text \<open>
  \<open>request.json\<close>: a dictionary, or a value of another type (named by the
  string), which has no method \<open>get\<close>.
\<close>

datatype request_json = Dict "string \<rightharpoonup> json" | NotADict string

text \<open>
  \<open>float(v)\<close>. Parsing a string is the work of the Python runtime; it is the
  parameter \<open>parse\<close>, which gives \<open>None\<close> for a string that is not a number.
\<close>

definition py_float :: "(string \<Rightarrow> pyfloat option) \<Rightarrow> json \<Rightarrow> py_error + pyfloat" where
  "py_float parse v =
     (case v of
        JFloat f \<Rightarrow> Inr f
      | JInt n \<Rightarrow>
          (case round_to_double (of_int n) of
             Fin q \<Rightarrow> Inr (Fin q)
           | _ \<Rightarrow> Inl (OverflowError ''int too large to convert to float''))
      | JBool b \<Rightarrow> Inr (Fin (if b then 1 else 0))
      | JStr s \<Rightarrow>
          (case parse s of
             Some f \<Rightarrow> Inr f
           | None \<Rightarrow> Inl (ValueError (''could not convert string to float: '' @ quoted s)))
      | JNull \<Rightarrow>
          Inl (TypeError (''float() argument must be a string or a real number, not ''
                 @ quoted ''NoneType''))
      | JArray \<Rightarrow>
          Inl (TypeError (''float() argument must be a string or a real number, not ''
                 @ quoted ''list''))
      | JObject \<Rightarrow>
          Inl (TypeError (''float() argument must be a string or a real number, not ''
                 @ quoted ''dict'')))"

text \<open>\<open>key in LIVE_SIGNALS\<close>: the keys are strings; a list or a dictionary is not hashable.\<close>

definition in_live_signals :: "json \<Rightarrow> py_error + spn_config option" where
  "in_live_signals k =
     (case k of
        JStr s \<Rightarrow> Inr (map_of LIVE_SIGNALS s)
      | JArray \<Rightarrow> Inl (TypeError (''unhashable type: '' @ quoted ''list''))
      | JObject \<Rightarrow> Inl (TypeError (''unhashable type: '' @ quoted ''dict''))
      | _ \<Rightarrow> Inr None)"

datatype body = Frame_body frame | Error_body string

type_synonym response = "body \<times> nat"

fun str :: "py_error \<Rightarrow> string" where
  "str (ValueError m) = m"
| "str (OverflowError m) = m"
| "str (ZeroDivisionError m) = m"
| "str (IndexError m) = m"
| "str (TypeError m) = m"
| "str (AttributeError m) = m"

text \<open>
  The route function (also called \<open>encode_value\<close> in the source). The conversion of
  \<open>physical_value\<close> comes before the test of \<open>signal_id\<close>, and every exception becomes
  a response with status 500.
\<close>

definition encode_value_route :: "(string \<Rightarrow> pyfloat option) \<Rightarrow> request_json \<Rightarrow> response" where
  "encode_value_route parse req =
     (case req of
        NotADict ty \<Rightarrow>
          (Error_body (str (AttributeError (quoted ty @ '' object has no attribute '' @ quoted ''get''))),
           500)
      | Dict data \<Rightarrow>
          (let signal_id = get_default (data ''signal_id'') JNull
           in case py_float parse (get_default (data ''physical_value'') (JInt 0)) of
                Inl e \<Rightarrow> (Error_body (str e), 500)
              | Inr pv \<Rightarrow>
                  (case in_live_signals signal_id of
                     Inl e \<Rightarrow> (Error_body (str e), 500)
                   | Inr None \<Rightarrow> (Error_body ''Invalid signal ID'', 400)
                   | Inr (Some config) \<Rightarrow>
                       (case encode_spn pv config of
                          Inl e \<Rightarrow> (Error_body (str e), 500)
                        | Inr result \<Rightarrow> (Frame_body result, 200)))))"

section \<open>The live simulation\<close>

text \<open>
  The state of the scheduler: the two globals and the threads created so far. Every
  thread runs \<open>live_simulation_worker\<close>; it is at the test of the \<open>while\<close> loop,
  at a signal of the pass over \<open>LIVE_SIGNALS\<close> (the index of the next one), or it has
  returned. Handlers and workers interleave: a handler is one step, a worker moves one
  step at a time (the test of the loop, or one signal of the pass). The sleep after
  each signal and the timestamp of an event are not part of the model.
\<close>

datatype worker = At_while | In_pass nat | Finished

record simulation =
  live_simulation_active :: bool
  live_simulation_thread :: "nat option"
  threads :: "worker list"

text \<open>
  \<open>simulation_status\<close> with its flag, and \<open>live_signal\<close> with the signal id, the
  physical value, the raw value, the data bytes, the identifier in hexadecimal and
  the unit.
\<close>

datatype event =
    Simulation_status bool
  | Live_signal string pyfloat int string string string



text \<open>
  One step of thread \<open>i\<close>. At the test of the loop it reads the flag: it enters a pass
  or returns. In a pass it encodes the value \<open>u\<close> drawn by \<open>random.uniform\<close> for the
  next signal and emits the event; an exception (from \<open>encode_spn\<close>, or a missing key)
  ends the loop. After the last signal it is back at the test. The worker never
  writes the flag.
\<close>

definition worker_step :: "pyfloat \<Rightarrow> nat \<Rightarrow> simulation \<Rightarrow> simulation \<times> event list" where
  "worker_step u i s =
     (if i < length (threads s) then
        (case threads s ! i of
           At_while \<Rightarrow>
             (s \<lparr> threads := (threads s)
                     [i := (if live_simulation_active s then In_pass 0 else Finished)] \<rparr>, [])
         | In_pass k \<Rightarrow>
             (if k < length LIVE_SIGNALS then
                (let (signal_id, config) = LIVE_SIGNALS ! k
                 in case encode_spn u config of
                      Inl e \<Rightarrow> (s \<lparr> threads := (threads s)[i := Finished] \<rparr>, [])
                    | Inr encoded \<Rightarrow>
                        (case cfg_unit config of
                           None \<Rightarrow> (s \<lparr> threads := (threads s)[i := Finished] \<rparr>, [])
                         | Some u_name \<Rightarrow>
                             (s \<lparr> threads := (threads s)[i := In_pass (Suc k)] \<rparr>,
                              [Live_signal signal_id u (raw_value encoded) (data_bytes encoded)
                                 (can_id_hex encoded) u_name])))
              else (s \<lparr> threads := (threads s)[i := At_while] \<rparr>, []))
         | Finished \<Rightarrow> (s, []))
      else (s, []))"



section \<open>Reading a frame back\<close>

text \<open>
  An 8-byte frame: eight integers in \<open>range(256)\<close>. Bit \<open>p\<close> of a frame, counted
  from the least significant bit of byte 0, is bit \<open>p mod 8\<close> of byte \<open>p div 8\<close>.
\<close>

definition frame_bit :: "int list \<Rightarrow> nat \<Rightarrow> bool" where
  "frame_bit data p = bit (data ! (p div 8)) (p mod 8)"

definition is_frame :: "int list \<Rightarrow> bool" where
  "is_frame data \<longleftrightarrow> length data = 8 \<and> (\<forall>b \<in> set data. 0 \<le> b \<and> b < 256)"

text \<open>
  Reading \<open>n\<close> bits back from absolute bit position \<open>pos\<close>, least significant first
  (little-endian). This follows the wording of the specification; the source has no decoder.
\<close>

fun read_bits :: "int list \<Rightarrow> nat \<Rightarrow> nat \<Rightarrow> int" where
  "read_bits data pos 0 = 0"
| "read_bits data pos (Suc n) = (if frame_bit data pos then 1 else 0) + 2 * read_bits data (Suc pos) n"

section \<open>Properties of the live simulation\<close>

lemma worker_step_flag:
  "live_simulation_active (fst (worker_step u i s)) = live_simulation_active s"
  by (simp add: worker_step_def Let_def split: worker.splits sum.splits option.splits prod.splits)




section \<open>Properties of \<open>calculate_can_id\<close>\<close>

lemma and_255: "(x::int) AND 255 = take_bit 8 x"
  by (simp add: take_bit_eq_mask mask_eq_exp_minus_1)

lemma bit_six: "bit (6::int) n \<longleftrightarrow> n = 1 \<or> n = 2"
proof -
  have "(6::int) = push_bit 1 (mask 2)"
    by (simp add: mask_eq_exp_minus_1 push_bit_eq_mult)
  then have "bit (6::int) n \<longleftrightarrow> bit (push_bit 1 (mask 2 :: int)) n"
    by (simp only:)
  also have "\<dots> \<longleftrightarrow> 1 \<le> n \<and> n - 1 < 2"
    by (simp only: bit_push_bit_iff bit_mask_iff possible_bit_int simp_thms)
  also have "\<dots> \<longleftrightarrow> n = 1 \<or> n = 2" by auto
  finally show ?thesis .
qed

lemma bit_255: "bit (255::int) n \<longleftrightarrow> n < 8"
proof -
  have "(255::int) = mask 8" by (simp add: mask_eq_exp_minus_1)
  then have "bit (255::int) n \<longleftrightarrow> bit (mask 8 :: int) n" by (simp only:)
  then show ?thesis by (simp only: bit_mask_iff possible_bit_int simp_thms)
qed

lemma can_id_fields:
  "calculate_can_id g sa =
     push_bit 26 6 OR push_bit 16 (take_bit 8 (drop_bit 8 g))
       OR push_bit 8 (if g < 0xF000 then take_bit 8 g else 255) OR take_bit 8 sa"
proof -
  have a: "(6::int) AND 7 = 6" "(0::int) AND 1 = 0" by simp_all
  have b: "take_bit 8 (255::int) = 255" by simp
  show ?thesis
    by (simp only: calculate_can_id_def Let_def and_255 a b push_bit_of_0 or.right_neutral
          take_bit_take_bit min.idem or.assoc if_distrib [of "take_bit 8"] cong: if_cong)
qed


lemma bit_can_id:
  "bit (calculate_can_id g sa) n \<longleftrightarrow>
     (26 \<le> n \<and> (n - 26 = 1 \<or> n - 26 = 2))
     \<or> (16 \<le> n \<and> n - 16 < 8 \<and> bit g (8 + (n - 16)))
     \<or> (8 \<le> n \<and> (if g < 0xF000 then n - 8 < 8 \<and> bit g (n - 8) else n - 8 < 8))
     \<or> (n < 8 \<and> bit sa n)"
  by (simp only: can_id_fields bit_or_iff bit_push_bit_iff bit_take_bit_iff bit_drop_bit_eq
        bit_six bit_255 possible_bit_int simp_thms o_def if_distrib [of "\<lambda>x. bit x (n - 8)"]
      cong: if_cong)

lemma can_id_priority: "drop_bit 26 (calculate_can_id g sa) = 6"
  by (rule bit_eqI) (simp add: bit_drop_bit_eq bit_can_id bit_six)

lemma can_id_reserved: "take_bit 2 (drop_bit 24 (calculate_can_id g sa)) = 0"
  by (rule bit_eqI) (simp add: bit_take_bit_iff bit_drop_bit_eq bit_can_id)

lemma can_id_pdu_format: "take_bit 8 (drop_bit 16 (calculate_can_id g sa)) = take_bit 8 (drop_bit 8 g)"
  by (rule bit_eqI) (auto simp add: bit_take_bit_iff bit_drop_bit_eq bit_can_id add.commute)

lemma can_id_pdu_specific: "take_bit 8 (drop_bit 8 (calculate_can_id g sa)) = (if 0xF000 \<le> g then 0xFF else take_bit 8 g)"
proof (cases "0xF000 \<le> g")
  case True
  have "take_bit 8 (drop_bit 8 (calculate_can_id g sa)) = 255"
    using True by (intro bit_eqI) (auto simp add: bit_take_bit_iff bit_drop_bit_eq bit_can_id bit_255)
  then show ?thesis using True by simp
next
  case False
  have "take_bit 8 (drop_bit 8 (calculate_can_id g sa)) = take_bit 8 g"
    using False by (intro bit_eqI) (auto simp add: bit_take_bit_iff bit_drop_bit_eq bit_can_id)
  then show ?thesis using False by simp
qed

lemma can_id_source: "take_bit 8 (calculate_can_id g sa) = take_bit 8 sa"
  by (rule bit_eqI) (auto simp add: bit_take_bit_iff bit_can_id)

lemma can_id_29_bits: "take_bit 29 (calculate_can_id g sa) = calculate_can_id g sa"
  by (rule bit_eqI) (auto simp add: bit_take_bit_iff bit_can_id)

text \<open>
  Claim C2. For every PGN \<open>g\<close> and every source address \<open>sa\<close> the identifier has
  29 bits; bits 26-28 are 6, bits 24-25 are 0, bits 16-23 are the high byte of the PGN,
  bits 8-15 are \<open>0xFF\<close> when \<open>g \<ge> 0xF000\<close> and the low byte of the PGN otherwise, and
  bits 0-7 are the low byte of the source address, which is the source address itself
  when that is a byte. For PGN 61444 and source address 0 the identifier is
  \<open>0x18F0FF00\<close>.
\<close>

theorem can_id_layout:
  "take_bit 29 (calculate_can_id g sa) = calculate_can_id g sa
   \<and> drop_bit 26 (calculate_can_id g sa) = 6
   \<and> take_bit 2 (drop_bit 24 (calculate_can_id g sa)) = 0
   \<and> take_bit 8 (drop_bit 16 (calculate_can_id g sa)) = take_bit 8 (drop_bit 8 g)
   \<and> take_bit 8 (drop_bit 8 (calculate_can_id g sa))
       = (if 0xF000 \<le> g then 0xFF else take_bit 8 g)
   \<and> take_bit 8 (calculate_can_id g sa) = take_bit 8 sa
   \<and> (0 \<le> sa \<and> sa < 256 \<longrightarrow> take_bit 8 (calculate_can_id g sa) = sa)
   \<and> calculate_can_id 61444 0 = 0x18F0FF00"
proof -
  have "0 \<le> sa \<and> sa < 256 \<longrightarrow> take_bit 8 sa = sa"
    by (simp add: take_bit_int_eq_self)
  moreover have "calculate_can_id 61444 0 = 0x18F0FF00"
    by (simp add: calculate_can_id_def)
  ultimately show ?thesis
    by (simp only: can_id_29_bits can_id_priority can_id_reserved can_id_pdu_format
          can_id_pdu_specific can_id_source simp_thms)
qed

theorem can_id_layout_witness:
  "(0::int) \<le> 0x56 \<and> (0x56::int) < 256
   \<and> take_bit 8 (calculate_can_id 0x1234 0x56) = 0x56
   \<and> take_bit 8 (drop_bit 8 (calculate_can_id 0x1234 0x56)) = 0x34
   \<and> take_bit 8 (drop_bit 16 (calculate_can_id 0x1234 0x56)) = 0x12
   \<and> drop_bit 26 (calculate_can_id 0x1234 0x56) = 6
   \<and> take_bit 8 (drop_bit 8 (calculate_can_id 0xFEF1 0)) = 0xFF"
  using can_id_layout [where g = "0x1234" and sa = "0x56"]
    can_id_layout [where g = "0xFEF1" and sa = 0]
  by simp

section \<open>Properties of \<open>encode_value\<close>\<close>

lemma byte_or:
  assumes "0 \<le> (b::int)" "b < 256" "k < 8"
  shows "0 \<le> (b OR push_bit k 1) \<and> (b OR push_bit k 1) < 256"
proof -
  have "(2::int) ^ k < 2 ^ 8" using assms(3) by (intro power_strict_increasing) auto
  then have "b OR push_bit k 1 < 2 ^ 8"
    using assms by (intro OR_upper) (auto simp add: push_bit_of_1)
  then show ?thesis using assms(1) by simp
qed

lemma byte_and_not:
  assumes "0 \<le> (b::int)" "b < 256"
  shows "0 \<le> (b AND NOT x) \<and> (b AND NOT x) < 256"
proof -
  have "b AND NOT x \<le> b" using assms(1) by (rule AND_upper1)
  then show ?thesis using assms by simp
qed

lemma bit_value_iff: "(drop_bit i (r::int) AND 1 \<noteq> 0) \<longleftrightarrow> bit r i"
  by (simp add: and_one_eq bit_iff_odd_drop_bit odd_iff_mod_2_eq_one)

lemma byte_of_pos: "(b::int) + (t + x) div 8 = (8 * b + t + x) div 8"
  by (simp add: add.assoc)

lemma bit_of_pos: "((t::int) + x) mod 8 = (8 * b + t + x) mod 8"
  by (simp add: add.assoc)


lemma bit_set_clear:
  "bit (if c then (old::int) OR push_bit k 1 else old AND NOT (push_bit k 1)) m
     = (if m = k then c else bit old m)"
  by (auto simp add: bit_or_iff bit_and_iff bit_not_iff bit_push_bit_iff bit_1_iff bit_exp_iff)

lemma encode_bit_step:
  assumes fr: "is_frame data"
    and lo: "0 \<le> 8 * b + t + int i" and hi: "8 * b + t + int i < 64"
  shows "\<exists>data'. encode_bit r b t data i = Inr data' \<and> is_frame data'
           \<and> (\<forall>p<64. frame_bit data' p
                  = (if p = nat (8 * b + t + int i) then bit r i else frame_bit data p))"
proof -
  define P where "P = nat (8 * b + t + int i)"
  have P: "int P = 8 * b + t + int i" "P < 64"
    using lo hi by (simp_all add: P_def)
  have cb: "b + (t + int i) div 8 = int (P div 8)"
    unfolding byte_of_pos P(1) [symmetric] by (simp add: zdiv_int)
  have ct: "(t + int i) mod 8 = int (P mod 8)"
    unfolding bit_of_pos [of t "int i" b] P(1) [symmetric] by (simp add: zmod_int)
  have len: "length data = 8" using fr by (simp add: is_frame_def)
  have j: "P div 8 < 8" using P(2) by simp
  have idx: "bytearray_index data (int (P div 8)) = Inr (P div 8)"
    using j len by (simp add: bytearray_index_def)
  define old where "old = data ! (P div 8)"
  have "old \<in> set data" unfolding old_def using j len by simp
  then have oldr: "0 \<le> old" "old < 256" using fr by (auto simp add: is_frame_def)
  define v where "v = (if bit r i then old OR push_bit (P mod 8) 1
                       else old AND NOT (push_bit (P mod 8) 1))"
  have k: "P mod 8 < 8" by simp
  have vr: "0 \<le> v \<and> v < 256"
    unfolding v_def using byte_or [OF oldr k] byte_and_not [OF oldr] by simp
  have eb: "encode_bit r b t data i = Inr (data[P div 8 := v])"
  proof (cases "bit r i")
    case True
    then have "v = data ! (P div 8) OR push_bit (P mod 8) 1" by (simp add: v_def old_def)
    with vr True show ?thesis
      by (simp add: encode_bit_def cb ct idx bit_value_iff bytearray_store_def)
  next
    case False
    then have "v = data ! (P div 8) AND NOT (push_bit (P mod 8) 1)" by (simp add: v_def old_def)
    with vr False show ?thesis
      by (simp add: encode_bit_def cb ct idx bit_value_iff bytearray_store_def)
  qed
  have vb: "bit v m = (if m = P mod 8 then bit r i else bit old m)" for m
    unfolding v_def by (rule bit_set_clear)
  have fr': "is_frame (data[P div 8 := v])"
    using fr vr set_update_subset_insert [of data "P div 8" v]
    by (auto simp add: is_frame_def)
  have fb: "frame_bit (data[P div 8 := v]) p
              = (if p = P then bit r i else frame_bit data p)" if "p < 64" for p
  proof (cases "p div 8 = P div 8")
    case True
    have "p = P \<longleftrightarrow> p mod 8 = P mod 8"
      using True by (metis div_mult_mod_eq)
    then show ?thesis using True j len
      by (simp add: frame_bit_def vb old_def)
  next
    case False
    then have "p \<noteq> P" by auto
    then show ?thesis using False by (simp add: frame_bit_def)
  qed
  show ?thesis using eb fr' fb unfolding P_def by blast
qed


lemma encode_loop_bits:
  assumes "is_frame data"
    and "\<forall>i \<in> set js. 0 \<le> 8 * b + t + int i \<and> 8 * b + t + int i < 64"
  shows "\<exists>data'. encode_loop r b t js data = Inr data' \<and> is_frame data'
           \<and> (\<forall>p<64. frame_bit data' p
                  = (if 8 * b + t \<le> int p \<and> nat (int p - (8 * b + t)) \<in> set js
                     then bit r (nat (int p - (8 * b + t))) else frame_bit data p))"
  using assms
proof (induction js arbitrary: data)
  case Nil
  then show ?case by simp
next
  case (Cons i js)
  from Cons.prems have i: "0 \<le> 8 * b + t + int i" "8 * b + t + int i < 64" by simp_all
  from encode_bit_step [OF Cons.prems(1) i, of r]
  obtain d1 where d1: "encode_bit r b t data i = Inr d1" "is_frame d1"
    "\<forall>p<64. frame_bit d1 p = (if p = nat (8 * b + t + int i) then bit r i else frame_bit data p)"
    by blast
  from Cons.prems have "\<forall>i \<in> set js. 0 \<le> 8 * b + t + int i \<and> 8 * b + t + int i < 64" by simp
  from Cons.IH [OF d1(2) this]
  obtain d2 where d2: "encode_loop r b t js d1 = Inr d2" "is_frame d2"
    "\<forall>p<64. frame_bit d2 p
        = (if 8 * b + t \<le> int p \<and> nat (int p - (8 * b + t)) \<in> set js
           then bit r (nat (int p - (8 * b + t))) else frame_bit d1 p)"
    by blast
  have eq: "p = nat (8 * b + t + int i)
        \<longleftrightarrow> 8 * b + t \<le> int p \<and> nat (int p - (8 * b + t)) = i" for p
    using i(1) by auto
  have "encode_loop r b t (i # js) data = Inr d2" using d1(1) d2(1) by simp
  moreover have "\<forall>p<64. frame_bit d2 p
        = (if 8 * b + t \<le> int p \<and> nat (int p - (8 * b + t)) \<in> set (i # js)
           then bit r (nat (int p - (8 * b + t))) else frame_bit data p)"
    using d2(3) d1(3) eq by auto
  ultimately show ?case using d2(2) by blast
qed

lemma frame_bit_zero: "p < 64 \<Longrightarrow> \<not> frame_bit (replicate 8 0) p"
  by (simp add: frame_bit_def)

lemma is_frame_zero: "is_frame (replicate 8 0)"
  by (simp add: is_frame_def)

lemma encode_value_bits:
  assumes len: "0 \<le> len" and lo: "0 \<le> 8 * (sb - 1) + (sbit - 1)"
    and hi: "8 * (sb - 1) + (sbit - 1) + len \<le> 64"
  shows "\<exists>data. encode_value r sb sbit len = Inr data \<and> is_frame data
           \<and> (\<forall>p<64. frame_bit data p
                  \<longleftrightarrow> 8 * (sb - 1) + (sbit - 1) \<le> int p
                       \<and> int p < 8 * (sb - 1) + (sbit - 1) + len
                       \<and> bit (min r (2 ^ nat len - 1)) (nat (int p - (8 * (sb - 1) + (sbit - 1)))))"
proof -
  define r' where "r' = min r (2 ^ nat len - 1)"
  have ev: "encode_value r sb sbit len
      = encode_loop r' (sb - 1) (sbit - 1) [0..<nat len] (replicate 8 0)"
    using len by (simp add: encode_value_def Let_def r'_def min_def push_bit_of_1 not_less)
  have rng: "\<forall>i \<in> set [0..<nat len].
      0 \<le> 8 * (sb - 1) + (sbit - 1) + int i \<and> 8 * (sb - 1) + (sbit - 1) + int i < 64"
    using lo hi by auto
  from encode_loop_bits [OF is_frame_zero rng, of r']
  obtain data where d: "encode_loop r' (sb - 1) (sbit - 1) [0..<nat len] (replicate 8 0) = Inr data"
    "is_frame data"
    "\<forall>p<64. frame_bit data p
        = (if 8 * (sb - 1) + (sbit - 1) \<le> int p
              \<and> nat (int p - (8 * (sb - 1) + (sbit - 1))) \<in> set [0..<nat len]
           then bit r' (nat (int p - (8 * (sb - 1) + (sbit - 1))))
           else frame_bit (replicate 8 0) p)"
    by blast
  have "\<forall>p<64. frame_bit data p
          \<longleftrightarrow> 8 * (sb - 1) + (sbit - 1) \<le> int p
               \<and> int p < 8 * (sb - 1) + (sbit - 1) + len
               \<and> bit r' (nat (int p - (8 * (sb - 1) + (sbit - 1))))"
    using d(3) frame_bit_zero len by auto
  then show ?thesis using d(1,2) ev unfolding r'_def by auto
qed

lemma read_bits_take_bit:
  "(\<forall>i<n. frame_bit data (pos + i) = bit r i) \<Longrightarrow> read_bits data pos n = take_bit n r"
proof (induction n arbitrary: pos r)
  case 0
  then show ?case by simp
next
  case (Suc n)
  have "\<forall>i<n. frame_bit data (Suc pos + i) = bit (r div 2) i"
    using Suc.prems by (auto simp add: bit_Suc [symmetric])
  then have "read_bits data (Suc pos) n = take_bit n (r div 2)" by (rule Suc.IH)
  moreover have "frame_bit data pos = odd r" using Suc.prems [rule_format, of 0] by (simp add: bit_0)
  ultimately show ?case by (simp add: take_bit_Suc odd_iff_mod_2_eq_one)
qed

text \<open>
  Claim C4. For \<open>length_bits\<close> from 1 to 64, a bit span that fits in the 8-byte frame
  and a raw value that is not negative, \<open>encode_value\<close> returns a frame, and reading
  \<open>length_bits\<close> bits back from \<open>(start_byte - 1) * 8 + (start_bit - 1)\<close> gives the
  saturated raw value \<open>min(raw, 2^length_bits - 1)\<close>.
\<close>

theorem pack_then_read_back:
  assumes "0 \<le> r" "1 \<le> len" "len \<le> 64" "0 \<le> 8 * (sb - 1) + (sbit - 1)"
    "8 * (sb - 1) + (sbit - 1) + len \<le> 64"
  shows "\<exists>data. encode_value r sb sbit len = Inr data
      \<and> read_bits data (nat (8 * (sb - 1) + (sbit - 1))) (nat len) = min r (2 ^ nat len - 1)"
proof -
  define pos where "pos = 8 * (sb - 1) + (sbit - 1)"
  define r' where "r' = min r ((2::int) ^ nat len - 1)"
  have l0: "0 \<le> len" using assms(2) by simp
  from encode_value_bits [OF l0 assms(4,5), of r]
  obtain data where d: "encode_value r sb sbit len = Inr data"
    "\<forall>p<64. frame_bit data p
          \<longleftrightarrow> pos \<le> int p \<and> int p < pos + len \<and> bit r' (nat (int p - pos))"
    unfolding pos_def r'_def by blast
  have "\<forall>i<nat len. frame_bit data (nat pos + i) = bit r' i"
  proof (intro allI impI)
    fix i assume i: "i < nat len"
    have p: "nat pos + i < 64" "int (nat pos + i) = pos + int i"
      using i assms(4,5) by (auto simp add: pos_def)
    have "nat (int (nat pos + i) - pos) = i" using p(2) by simp
    then show "frame_bit data (nat pos + i) = bit r' i"
      using d(2) [rule_format, OF p(1)] p(2) i by auto
  qed
  then have "read_bits data (nat pos) (nat len) = take_bit (nat len) r'"
    by (rule read_bits_take_bit)
  moreover have "0 \<le> r'" "r' < 2 ^ nat len" using assms(1) by (auto simp add: r'_def)
  then have "take_bit (nat len) r' = r'" by (simp add: take_bit_int_eq_self)
  ultimately show ?thesis using d(1) unfolding pos_def r'_def by auto
qed

theorem pack_then_read_back_witness:
  "(0::int) \<le> 70000 \<and> (1::int) \<le> 16 \<and> (16::int) \<le> 64
   \<and> (0::int) \<le> 8 * (4 - 1) + (1 - 1) \<and> (8::int) * (4 - 1) + (1 - 1) + 16 \<le> 64
   \<and> (\<exists>data. encode_value 70000 4 1 16 = Inr data \<and> read_bits data 24 16 = 65535)"
  using pack_then_read_back [where r = 70000 and len = 16 and sb = 4 and sbit = 1]
  by simp

section \<open>Properties of the rounding to binary64\<close>

lemma bit_length_bounds:
  "0 < n \<Longrightarrow> n < 2 ^ bit_length n \<and> 2 ^ bit_length n \<le> 2 * n"
proof (induction n rule: bit_length.induct)
  case (1 n)
  show ?case
  proof (cases "n div 2 = 0")
    case True
    with "1.prems" have "n = 1" by presburger
    then show ?thesis by (simp add: bit_length.simps [of "Suc 0"] bit_length.simps [of 0])
  next
    case False
    with "1.IH" "1.prems" have ih: "n div 2 < 2 ^ bit_length (n div 2)"
      "2 ^ bit_length (n div 2) \<le> 2 * (n div 2)" by auto
    have bl: "bit_length n = Suc (bit_length (n div 2))"
      using "1.prems" by (subst bit_length.simps) simp
    show ?thesis using ih unfolding bl by (simp, presburger)
  qed
qed

lemma rat_bit_length_bounds:
  assumes "0 < p"
  shows "(of_int p :: rat) < 2 ^ bit_length (nat p)"
    and "(2::rat) ^ bit_length (nat p) \<le> 2 * of_int p"
proof -
  have n: "nat p < 2 ^ bit_length (nat p) \<and> 2 ^ bit_length (nat p) \<le> 2 * nat p"
    using assms by (intro bit_length_bounds) simp
  have e: "(of_nat (nat p) :: rat) = of_int p" using assms by simp
  from n have "(of_nat (nat p) :: rat) < of_nat (2 ^ bit_length (nat p))"
    by (simp only: of_nat_less_iff)
  then show "(of_int p :: rat) < 2 ^ bit_length (nat p)" unfolding e by simp
  from n have "(of_nat (2 ^ bit_length (nat p)) :: rat) \<le> of_nat (2 * nat p)"
    by (simp only: of_nat_le_iff)
  then show "(2::rat) ^ bit_length (nat p) \<le> 2 * of_int p" using e by simp
qed

lemma flog2_bounds:
  assumes "0 < x"
  shows "2 powi flog2 x \<le> x \<and> x < 2 powi (flog2 x + 1)"
proof -
  obtain p q where pq: "quotient_of x = (p, q)" by (cases "quotient_of x")
  then have q: "0 < q" and x: "x = of_int p / of_int q"
    using quotient_of_denom_pos quotient_of_div by blast+
  from assms x q have p: "0 < p" by (simp add: zero_less_divide_iff)
  define a where "a = bit_length (nat p)"
  define b where "b = bit_length (nat q)"
  define k where "k = int a - int b"
  have rp: "(of_int p :: rat) < 2 ^ a" "(2::rat) ^ a \<le> 2 * of_int p"
    unfolding a_def using p by (rule rat_bit_length_bounds)+
  have rq: "(of_int q :: rat) < 2 ^ b" "(2::rat) ^ b \<le> 2 * of_int q"
    unfolding b_def using q by (rule rat_bit_length_bounds)+
  have k: "(2::rat) powi k = 2 ^ a / 2 ^ b"
    unfolding k_def by (simp add: power_int_diff)
  have k1: "(2::rat) powi (k + 1) = 2 * 2 powi k" "(2::rat) powi (k - 1) = 2 powi k / 2"
    by (simp_all add: power_int_add power_int_diff)
  have qpos: "(0::rat) < of_int q" using q by simp
  have up: "x < 2 powi (k + 1)"
  proof -
    have "of_int p * (2::rat) ^ b < 2 ^ a * (2 * of_int q)"
      using rp(1) rq(2) qpos p by (intro mult_less_le_imp_less) auto
    then show ?thesis unfolding k1 k x using qpos by (simp add: field_simps)
  qed
  have lo: "2 powi (k - 1) \<le> x"
  proof -
    have "(2::rat) ^ a * of_int q \<le> (2 * of_int p) * 2 ^ b"
      using rp(2) rq(1) qpos p by (intro mult_mono) auto
    then show ?thesis unfolding k1 k x using qpos by (simp add: field_simps)
  qed
  have f: "flog2 x = (if 2 powi k \<le> x then k else k - 1)"
    unfolding flog2_def pq k_def a_def b_def by simp
  show ?thesis
  proof (cases "2 powi k \<le> x")
    case True
    then show ?thesis using up f by simp
  next
    case False
    then show ?thesis using lo f by simp
  qed
qed

lemma flog2_unique:
  assumes "0 < x" "2 powi j \<le> x" "x < 2 powi (j + 1)"
  shows "flog2 x = j"
proof -
  from flog2_bounds [OF assms(1)] have b: "2 powi flog2 x \<le> x" "x < 2 powi (flog2 x + 1)" by auto
  have 1: "flog2 x < j + 1"
  proof (rule ccontr)
    assume "\<not> flog2 x < j + 1"
    then have "(2::rat) powi (j + 1) \<le> 2 powi flog2 x" by (intro power_int_increasing) auto
    with b(1) assms(3) show False by simp
  qed
  have 2: "j < flog2 x + 1"
  proof (rule ccontr)
    assume "\<not> j < flog2 x + 1"
    then have "(2::rat) powi (flog2 x + 1) \<le> 2 powi j" by (intro power_int_increasing) auto
    with b(2) assms(2) show False by simp
  qed
  from 1 2 show ?thesis by simp
qed

lemma round_half_even_of_int: "round_half_even (of_int n) = n"
  by (simp add: round_half_even_def)

lemma round_to_double_cert:
  assumes "x \<noteq> 0" "2 powi k \<le> \<bar>x\<bar>" "\<bar>x\<bar> < 2 powi (k + 1)"
  shows "round_to_double x =
     (let e = max (k - 52) (- 1074);
          m = round_half_even (\<bar>x\<bar> / 2 powi e);
          y = of_int m * 2 powi e
      in if 2 ^ 1024 \<le> y then (if 0 < x then PInf else NInf) else Fin (sgn x * y))"
proof -
  have "flog2 \<bar>x\<bar> = k" using assms by (intro flog2_unique) auto
  then show ?thesis using assms(1) by (simp add: round_to_double_def)
qed

lemma round_to_double_exact:
  assumes m: "\<bar>m\<bar> < 2 ^ 53" and e: "- 1074 \<le> e"
    and ov: "\<bar>of_int m * 2 powi e\<bar> < (2::rat) ^ 1024"
  shows "round_to_double (of_int m * 2 powi e) = Fin (of_int m * 2 powi e)"
proof (cases "m = 0")
  case True
  then show ?thesis by (simp add: round_to_double_def)
next
  case False
  define x :: rat where "x = of_int m * 2 powi e"
  have x0: "x \<noteq> 0" using False by (simp add: x_def)
  have ax: "\<bar>x\<bar> = of_int \<bar>m\<bar> * 2 powi e" by (simp add: x_def abs_mult)
  define L where "L = flog2 \<bar>x\<bar>"
  have Lb: "2 powi L \<le> \<bar>x\<bar>" using flog2_bounds [of "\<bar>x\<bar>"] x0 by (simp add: L_def)
  have "(of_int \<bar>m\<bar> :: rat) < 2 ^ 53" using m by (metis of_int_less_iff of_int_numeral of_int_power)
  then have "\<bar>x\<bar> < 2 ^ 53 * 2 powi e" unfolding ax by (intro mult_strict_right_mono) auto
  also have "\<dots> = 2 powi (53 + e)" by (simp add: power_int_add)
  finally have "(2::rat) powi L < 2 powi (53 + e)" using Lb by simp
  then have "L < 53 + e"
    by (metis linorder_not_less power_int_increasing one_le_numeral)
  define E where "E = max (L - 52) (- 1074)"
  have Ee: "E \<le> e" using \<open>L < 53 + e\<close> e by (simp add: E_def)
  have "\<bar>x\<bar> / 2 powi E = of_int \<bar>m\<bar> * 2 powi (e - E)"
    unfolding ax by (simp add: power_int_diff)
  also have "\<dots> = of_int (\<bar>m\<bar> * 2 ^ nat (e - E))"
    using Ee by (simp add: power_int_def)
  finally have q: "\<bar>x\<bar> / 2 powi E = of_int (\<bar>m\<bar> * 2 ^ nat (e - E))" .
  have y: "rat_of_int (round_half_even (\<bar>x\<bar> / 2 powi E)) * 2 powi E = \<bar>x\<bar>"
    unfolding q round_half_even_of_int unfolding q [symmetric] by simp
  have "\<not> 2 ^ 1024 \<le> \<bar>x\<bar>" using ov by (simp add: x_def)
  then have "round_to_double x = Fin (sgn x * \<bar>x\<bar>)"
    using x0 by (simp add: round_to_double_def Let_def L_def [symmetric] E_def [symmetric] y)
  then show ?thesis by (simp add: x_def [symmetric] sgn_mult_abs)
qed

section \<open>Properties of \<open>physical_to_raw\<close>\<close>

lemma round_half_even_half:
  "round_half_even (of_int n + 1 / 2) = (if even n then n else n + 1)"
proof -
  have "\<lfloor>(of_int n :: rat) + 1 / 2\<rfloor> = n" by (rule floor_unique) auto
  then show ?thesis by (simp add: round_half_even_def)
qed

lemma py_truediv_nonzero: "r \<noteq> Fin 0 \<Longrightarrow> \<exists>f. py_truediv a r = Inr f"
  by (cases a; cases r) auto

lemma physical_to_raw_cases:
  assumes "r \<noteq> Fin 0" "py_truediv (py_sub v off) r = Inr f"
  shows "physical_to_raw v r off =
     (case f of
        Fin q \<Rightarrow> Inr (max 0 (round_half_even q))
      | NaN \<Rightarrow> Inl (ValueError ''cannot convert float NaN to integer'')
      | _ \<Rightarrow> Inl (OverflowError ''cannot convert float infinity to integer''))"
  using assms by (cases f) (simp_all add: physical_to_raw_def)

lemma exact_1000: "round_to_double (1000 - 0) = Fin 1000"
  using round_to_double_exact [of 1000 0] by simp

lemma exact_8000: "round_to_double (1000 / (1 / 8)) = Fin 8000"
  using round_to_double_exact [of 8000 0] by simp

lemma raw_1000: "physical_to_raw (Fin 1000) (Fin (1 / 8)) (Fin 0) = Inr 8000"
  using exact_1000 exact_8000 by (simp add: physical_to_raw_def round_half_even_def)

text \<open>
  Claim C3, as amended. \<open>physical_to_raw\<close> fails with the error "Resolution cannot be
  zero" exactly when the resolution is zero. For a resolution that is not zero and a
  float quotient \<open>(value - offset) / resolution\<close> that is finite it returns
  \<open>max(0, round(quotient))\<close>; when the quotient is an infinity or a NaN, \<open>round\<close>
  raises \<open>OverflowError\<close> or \<open>ValueError\<close>. A returned raw value is never negative.
\<close>

theorem physical_to_raw_result:
  "(physical_to_raw v r off = Inl (ValueError ''Resolution cannot be zero'') \<longleftrightarrow> r = Fin 0)
   \<and> (r \<noteq> Fin 0 \<longrightarrow> py_truediv (py_sub v off) r = Inr (Fin q)
        \<longrightarrow> physical_to_raw v r off = Inr (max 0 (round_half_even q)))
   \<and> (r \<noteq> Fin 0 \<longrightarrow> (\<forall>x. py_truediv (py_sub v off) r \<noteq> Inr (Fin x))
        \<longrightarrow> physical_to_raw v r off
              = Inl (OverflowError ''cannot convert float infinity to integer'')
          \<or> physical_to_raw v r off
              = Inl (ValueError ''cannot convert float NaN to integer''))
   \<and> (\<forall>n. physical_to_raw v r off = Inr n \<longrightarrow> 0 \<le> n)"
proof (cases "r = Fin 0")
  case True
  then show ?thesis by (simp add: physical_to_raw_def)
next
  case False
  then obtain f where f: "py_truediv (py_sub v off) r = Inr f"
    using py_truediv_nonzero by blast
  show ?thesis
    using False f physical_to_raw_cases [OF False f] by (cases f) auto
qed

theorem physical_to_raw_result_witness:
  "Fin (1 / 8) \<noteq> Fin 0
   \<and> py_truediv (py_sub (Fin 1000) (Fin 0)) (Fin (1 / 8)) = Inr (Fin 8000)
   \<and> physical_to_raw (Fin 1000) (Fin (1 / 8)) (Fin 0) = Inr (max 0 (round_half_even 8000))
   \<and> (0::int) \<le> 8000
   \<and> (\<forall>x. py_truediv (py_sub PInf (Fin 0)) (Fin (1 / 8)) \<noteq> Inr (Fin x))
   \<and> physical_to_raw PInf (Fin (1 / 8)) (Fin 0)
       = Inl (OverflowError ''cannot convert float infinity to integer'')"
  using physical_to_raw_result [of "Fin 1000" "Fin (1 / 8)" "Fin 0" 8000]
    physical_to_raw_result [of PInf "Fin (1 / 8)" "Fin 0" 0]
    exact_1000 exact_8000
  by (simp add: physical_to_raw_def)

theorem physical_to_raw_overflow_counterexample:
  "Fin (1 / 2) \<noteq> Fin 0
   \<and> physical_to_raw (Fin (2 ^ 1023)) (Fin (1 / 2)) (Fin 0)
       = Inl (OverflowError ''cannot convert float infinity to integer'')"
proof -
  have a: "round_to_double (2 ^ 1023 - 0) = Fin (2 ^ 1023)"
    using round_to_double_exact [of 1 1023] by simp
  have b: "round_to_double (2 ^ 1023 / (1 / 2)) = PInf"
    using round_to_double_cert [of "2 ^ 1024" 1024] by (simp add: round_half_even_def)
  show ?thesis using a b by (simp add: physical_to_raw_def)
qed

text \<open>
  Claim C10, as amended. \<open>round\<close> breaks ties to the even integer: when the float
  quotient is \<open>n + 1/2\<close> for an integer \<open>n\<close>, \<open>physical_to_raw\<close> returns the even one
  of \<open>n\<close> and \<open>n + 1\<close>, floored at 0; for \<open>n \<ge> 0\<close> that is the even neighbour itself.
\<close>

theorem ties_to_even:
  assumes "r \<noteq> Fin 0" "py_truediv (py_sub v off) r = Inr (Fin (of_int n + 1 / 2))"
  shows "physical_to_raw v r off = Inr (max 0 (if even n then n else n + 1))
       \<and> (0 \<le> n \<longrightarrow> physical_to_raw v r off = Inr (if even n then n else n + 1))"
  using physical_to_raw_cases [OF assms] by (auto simp add: round_half_even_half)

theorem ties_to_even_witness:
  "Fin 1 \<noteq> Fin 0
   \<and> py_truediv (py_sub (Fin (1 / 2)) (Fin 0)) (Fin 1) = Inr (Fin (of_int 0 + 1 / 2))
   \<and> physical_to_raw (Fin (1 / 2)) (Fin 1) (Fin 0) = Inr 0
   \<and> py_truediv (py_sub (Fin (3 / 2)) (Fin 0)) (Fin 1) = Inr (Fin (of_int 1 + 1 / 2))
   \<and> physical_to_raw (Fin (3 / 2)) (Fin 1) (Fin 0) = Inr 2"
proof -
  have a: "round_to_double (1 / 2) = Fin (1 / 2)"
    using round_to_double_exact [of 1 "- 1"] by simp
  have b: "round_to_double (3 / 2) = Fin (3 / 2)"
    using round_to_double_exact [of 3 "- 1"] by simp
  have qa: "py_truediv (py_sub (Fin (1 / 2)) (Fin 0)) (Fin 1) = Inr (Fin (of_int 0 + 1 / 2))"
    using a by simp
  have qb: "py_truediv (py_sub (Fin (3 / 2)) (Fin 0)) (Fin 1) = Inr (Fin (of_int 1 + 1 / 2))"
    using b by simp
  show ?thesis
    using ties_to_even [OF _ qa] ties_to_even [OF _ qb] qa qb by simp
qed

theorem ties_to_even_counterexample:
  "py_truediv (py_sub (Fin (- 3 / 2)) (Fin 0)) (Fin 1) = Inr (Fin (of_int (- 2) + 1 / 2))
   \<and> physical_to_raw (Fin (- 3 / 2)) (Fin 1) (Fin 0) = Inr 0
   \<and> (if even (- 2 :: int) then (- 2 :: int) else - 2 + 1) = - 2"
proof -
  have a: "round_to_double (- 3 / 2) = Fin (- 3 / 2)"
    using round_to_double_exact [of "- 3" "- 1"] by simp
  have b: "round_half_even (- 3 / 2) = - 2"
    using round_half_even_half [of "- 2"] by simp
  show ?thesis using a b by (simp add: physical_to_raw_def)
qed

section \<open>Properties of \<open>encode_spn\<close> and of the route\<close>

lemma format_int_Inr: "0 \<le> w \<Longrightarrow> \<exists>s. format_int b w n = Inr s"
  by (simp add: format_int_def)

lemma encode_value_Inr_length: "encode_value r sb sbit len = Inr data \<Longrightarrow> 0 \<le> len"
  by (simp add: encode_value_def Let_def split: if_splits)

lemma encode_spn_success:
  assumes p: "physical_to_raw pv (get_default (cfg_resolution c) (Fin 1))
                (get_default (cfg_offset c) (Fin 0)) = Inr raw"
    and e: "encode_value raw (get_default (cfg_start_byte c) 1) (get_default (cfg_start_bit c) 1)
                (get_default (cfg_length_bits c) 8) = Inr data"
  shows "\<exists>f. encode_spn pv c = Inr f \<and> physical_value f = pv \<and> raw_value f = raw
             \<and> data_array f = data
             \<and> can_id f = calculate_can_id (get_default (cfg_pgn c) 0) 0"
proof -
  have l: "0 \<le> get_default (cfg_length_bits c) 8" using e by (rule encode_value_Inr_length)
  obtain s1 where s1: "format_int 16 0 raw = Inr s1" using format_int_Inr [of 0] by auto
  obtain s2 where s2: "format_int 2 (get_default (cfg_length_bits c) 8) raw = Inr s2"
    using format_int_Inr [OF l] by blast
  obtain s3 where s3: "format_int 16 8 (calculate_can_id (get_default (cfg_pgn c) 0) 0) = Inr s3"
    using format_int_Inr [of 8] by auto
  obtain s4 where s4: "format_int 16 4 (get_default (cfg_pgn c) 0) = Inr s4"
    using format_int_Inr [of 4] by auto
  show ?thesis by (simp add: encode_spn_def Let_def p e s1 s2 s3 s4)
qed

lemma encode_spn_raw_error:
  "physical_to_raw pv (get_default (cfg_resolution c) (Fin 1))
      (get_default (cfg_offset c) (Fin 0)) = Inl e \<Longrightarrow> encode_spn pv c = Inl e"
  by (simp add: encode_spn_def Let_def)

lemma live_signal_cases:
  assumes "map_of LIVE_SIGNALS s = Some c"
  shows "c = engine_speed \<or> c = vehicle_speed \<or> c = cab_temperature \<or> c = driver_torque"
proof -
  from assms have "(s, c) \<in> set LIVE_SIGNALS" by (rule map_of_SomeD)
  then show ?thesis unfolding LIVE_SIGNALS_def by auto
qed

lemma live_engine_speed: "map_of LIVE_SIGNALS ''engine_speed'' = Some engine_speed"
  by (simp add: LIVE_SIGNALS_def)

lemma live_unknown: "map_of LIVE_SIGNALS ''nope'' = None"
  by (simp add: LIVE_SIGNALS_def)

lemma encode_spn_fits:
  assumes c: "cfg_resolution c = Some res" "cfg_offset c = Some off" "cfg_start_byte c = Some sb"
      "cfg_start_bit c = Some sbit" "cfg_length_bits c = Some len"
    and raw: "physical_to_raw pv res off = Inr raw"
    and fit: "0 \<le> len" "0 \<le> 8 * (sb - 1) + (sbit - 1)" "8 * (sb - 1) + (sbit - 1) + len \<le> 64"
  shows "\<exists>f. encode_spn pv c = Inr f \<and> physical_value f = pv \<and> raw_value f = raw
             \<and> encode_value raw sb sbit len = Inr (data_array f)"
proof -
  from encode_value_bits [OF fit, of raw]
  obtain data where d: "encode_value raw sb sbit len = Inr data" by blast
  from encode_spn_success [of pv c raw data] raw d c
  show ?thesis by (auto simp add: get_default_def)
qed

lemma zero_raw_a: "physical_to_raw (Fin 0) (Fin (1 / 8)) (Fin 0) = Inr 0"
  by (simp add: physical_to_raw_def round_to_double_def round_half_even_def)

lemma zero_raw_b: "physical_to_raw (Fin 0) (Fin (1 / 256)) (Fin 0) = Inr 0"
  by (simp add: physical_to_raw_def round_to_double_def round_half_even_def)

lemma zero_raw_c: "physical_to_raw (Fin 0) (Fin (1 / 32)) (Fin (- 273)) = Inr 8736"
proof -
  have a: "round_to_double (0 - (- 273)) = Fin 273"
    using round_to_double_exact [of 273 0] by simp
  have b: "round_to_double (273 / (1 / 32)) = Fin 8736"
    using round_to_double_exact [of 8736 0] by simp
  show ?thesis using a b by (simp add: physical_to_raw_def round_half_even_def)
qed

lemma zero_raw_d: "physical_to_raw (Fin 0) (Fin 1) (Fin (- 125)) = Inr 125"
proof -
  have a: "round_to_double (0 - (- 125)) = Fin 125"
    using round_to_double_exact [of 125 0] by simp
  show ?thesis using a by (simp add: physical_to_raw_def round_half_even_def)
qed

lemma live_zero_encodes:
  assumes "map_of LIVE_SIGNALS s = Some c"
  shows "\<exists>f. encode_spn (Fin 0) c = Inr f \<and> physical_value f = Fin 0"
proof -
  from live_signal_cases [OF assms]
  consider "c = engine_speed" | "c = vehicle_speed" | "c = cab_temperature" | "c = driver_torque"
    by blast
  then show ?thesis
  proof cases
    case 1
    show ?thesis
      using encode_spn_fits [of c "Fin (1 / 8)" "Fin 0" 4 1 16 "Fin 0" 0] zero_raw_a
      by (simp add: 1 engine_speed_def) blast
  next
    case 2
    show ?thesis
      using encode_spn_fits [of c "Fin (1 / 256)" "Fin 0" 2 1 16 "Fin 0" 0] zero_raw_b
      by (simp add: 2 vehicle_speed_def) blast
  next
    case 3
    show ?thesis
      using encode_spn_fits [of c "Fin (1 / 32)" "Fin (- 273)" 2 1 16 "Fin 0" 8736] zero_raw_c
      by (simp add: 3 cab_temperature_def) blast
  next
    case 4
    show ?thesis
      using encode_spn_fits [of c "Fin 1" "Fin (- 125)" 2 1 8 "Fin 0" 125] zero_raw_d
      by (simp add: 4 driver_torque_def) blast
  qed
qed

lemma py_float_zero: "py_float parse (JInt 0) = Inr (Fin 0)"
  by (simp add: py_float_def round_to_double_def)

lemma exact_10000: "round_to_double (10000 - 0) = Fin 10000"
  using round_to_double_exact [of 10000 0] by simp

lemma exact_80000: "round_to_double (10000 / (1 / 8)) = Fin 80000"
  using round_to_double_exact [of 80000 0] by simp

lemma raw_10000: "physical_to_raw (Fin 10000) (Fin (1 / 8)) (Fin 0) = Inr 80000"
  using exact_10000 exact_80000 by (simp add: physical_to_raw_def round_half_even_def)

lemma pack_80000: "encode_value 80000 4 1 16 = Inr [0, 0, 0, 255, 255, 0, 0, 0]"
  by code_simp

lemma pack_8000: "encode_value 8000 4 1 16 = Inr [0, 0, 0, 0x40, 0x1F, 0, 0, 0]"
  by code_simp

text \<open>
  Claim C1. The field \<open>raw_value\<close> of the frame is the result of \<open>physical_to_raw\<close>,
  before the saturation that \<open>encode_value\<close> applies to its own local copy. For
  \<open>engine_speed\<close> (16 bits) and the physical value 10000 the frame reports
  \<open>raw_value = 80000\<close>, above \<open>2^16 - 1\<close>, while its data bytes hold the saturated
  \<open>0xFFFF\<close>.
\<close>

theorem raw_value_above_field_maximum:
  "\<exists>f. encode_spn (Fin 10000) engine_speed = Inr f
       \<and> cfg_length_bits engine_speed = Some 16
       \<and> raw_value f = 80000 \<and> \<not> raw_value f \<le> 2 ^ 16 - 1
       \<and> data_array f = [0, 0, 0, 255, 255, 0, 0, 0]"
  using encode_spn_fits [of engine_speed "Fin (1 / 8)" "Fin 0" 4 1 16 "Fin 10000" 80000]
    raw_10000 pack_80000
  by (simp add: engine_speed_def) auto

text \<open>
  Claim C5. For a bit span that fits in the frame, \<open>encode_value\<close> returns an 8-byte
  frame in which bit \<open>pos + i\<close>, for \<open>i < length_bits\<close> and
  \<open>pos = (start_byte - 1) * 8 + (start_bit - 1)\<close>, is bit \<open>i\<close> of
  \<open>min(raw, 2^length_bits - 1)\<close>, and every other bit is zero; no error is raised.
  For \<open>engine_speed\<close> and the physical value 1000 the raw value is 8000 and the frame
  is \<open>00 00 00 40 1F 00 00 00\<close>.
\<close>

theorem pack_bits_layout:
  assumes "0 \<le> len" "0 \<le> 8 * (sb - 1) + (sbit - 1)" "8 * (sb - 1) + (sbit - 1) + len \<le> 64"
  shows "(\<exists>data. encode_value r sb sbit len = Inr data \<and> is_frame data
           \<and> (\<forall>p<64. frame_bit data p
                  \<longleftrightarrow> 8 * (sb - 1) + (sbit - 1) \<le> int p
                       \<and> int p < 8 * (sb - 1) + (sbit - 1) + len
                       \<and> bit (min r (2 ^ nat len - 1)) (nat (int p - (8 * (sb - 1) + (sbit - 1))))))
       \<and> physical_to_raw (Fin 1000) (Fin (1 / 8)) (Fin 0) = Inr 8000
       \<and> encode_value 8000 4 1 16 = Inr [0, 0, 0, 0x40, 0x1F, 0, 0, 0]"
  using encode_value_bits [OF assms, of r] raw_1000 pack_8000 by simp

theorem pack_bits_layout_witness:
  "(0::int) \<le> 8 \<and> (0::int) \<le> 8 * (2 - 1) + (1 - 1) \<and> (8::int) * (2 - 1) + (1 - 1) + 8 \<le> 64
   \<and> (\<exists>data. encode_value 300 2 1 8 = Inr data \<and> is_frame data
         \<and> (\<forall>p<64. frame_bit data p \<longleftrightarrow> 8 \<le> p \<and> p < 16))"
proof -
  have m: "min (300::int) (2 ^ nat 8 - 1) = mask 8" by (simp add: mask_eq_exp_minus_1)
  have "(int p < 16 \<and> bit (mask 8 :: int) (nat (int p - 8))) = (p < 16)" if "8 \<le> p" for p
    using that by (auto simp add: bit_mask_iff)
  then show ?thesis
    using pack_bits_layout [where r = 300 and sb = 2 and sbit = 1 and len = 8]
    unfolding m by (simp cong: conj_cong)
qed

text \<open>
  Claim C9. A request without \<open>physical_value\<close> is not rejected: for a signal of
  the live set the route encodes the physical value \<open>0.0\<close> and answers with the frame
  and status 200.
\<close>

theorem missing_physical_value_defaults_to_zero:
  assumes "d ''physical_value'' = None" "d ''signal_id'' = Some (JStr s)"
    "map_of LIVE_SIGNALS s = Some c"
  shows "\<exists>f. encode_value_route parse (Dict d) = (Frame_body f, 200)
             \<and> encode_spn (Fin 0) c = Inr f \<and> physical_value f = Fin 0"
proof -
  from live_zero_encodes [OF assms(3)]
  obtain f where f: "encode_spn (Fin 0) c = Inr f" "physical_value f = Fin 0" by blast
  show ?thesis
    using assms f
    by (simp add: encode_value_route_def get_default_def py_float_zero in_live_signals_def)
qed

theorem missing_physical_value_defaults_to_zero_witness:
  "[''signal_id'' \<mapsto> JStr ''engine_speed''] ''physical_value'' = None
   \<and> [''signal_id'' \<mapsto> JStr ''engine_speed''] ''signal_id'' = Some (JStr ''engine_speed'')
   \<and> map_of LIVE_SIGNALS ''engine_speed'' = Some engine_speed
   \<and> (\<exists>f. encode_value_route (\<lambda>s. None) (Dict [''signal_id'' \<mapsto> JStr ''engine_speed''])
              = (Frame_body f, 200)
            \<and> encode_spn (Fin 0) engine_speed = Inr f \<and> physical_value f = Fin 0)"
  using missing_physical_value_defaults_to_zero
    [of "[''signal_id'' \<mapsto> JStr ''engine_speed'']" "''engine_speed''" engine_speed "\<lambda>s. None"]
    live_engine_speed
  by simp

text \<open>
  Claim C7, as amended. A request whose \<open>signal_id\<close> is not in the live set never
  gets a frame: the answer is an error with status 400 or 500. It is the error
  "Invalid signal ID" with status 400 whenever \<open>physical_value\<close> is absent or converts
  to a float and \<open>signal_id\<close> is hashable; the conversion of \<open>physical_value\<close> comes
  first, so when that fails the answer is its error with status 500.
\<close>

theorem unknown_signal_is_rejected:
  assumes "\<forall>d s. req = Dict d \<longrightarrow> d ''signal_id'' = Some (JStr s) \<longrightarrow> map_of LIVE_SIGNALS s = None"
  shows "(\<exists>m st. encode_value_route parse req = (Error_body m, st) \<and> (st = 400 \<or> st = 500))
       \<and> (\<forall>d pv. req = Dict d
             \<longrightarrow> py_float parse (get_default (d ''physical_value'') (JInt 0)) = Inr pv
             \<longrightarrow> d ''signal_id'' \<noteq> Some JArray \<longrightarrow> d ''signal_id'' \<noteq> Some JObject
             \<longrightarrow> encode_value_route parse req = (Error_body ''Invalid signal ID'', 400))
       \<and> (\<forall>d e. req = Dict d
             \<longrightarrow> py_float parse (get_default (d ''physical_value'') (JInt 0)) = Inl e
             \<longrightarrow> encode_value_route parse req = (Error_body (str e), 500))"
proof (cases req)
  case (NotADict ty)
  then show ?thesis by (simp add: encode_value_route_def)
next
  case (Dict d)
  have k: "in_live_signals (get_default (d ''signal_id'') JNull) = Inr None
         \<or> (\<exists>e. in_live_signals (get_default (d ''signal_id'') JNull) = Inl e
                \<and> (d ''signal_id'' = Some JArray \<or> d ''signal_id'' = Some JObject))"
  proof (cases "d ''signal_id''")
    case None
    then show ?thesis by (simp add: in_live_signals_def get_default_def)
  next
    case (Some j)
    then show ?thesis using assms Dict
      by (cases j) (simp_all add: in_live_signals_def get_default_def)
  qed
  show ?thesis
  proof (cases "py_float parse (get_default (d ''physical_value'') (JInt 0))")
    case (Inl e)
    then show ?thesis using Dict by (simp add: encode_value_route_def Let_def)
  next
    case (Inr pv)
    then show ?thesis using Dict k by (auto simp add: encode_value_route_def Let_def)
  qed
qed

theorem unknown_signal_is_rejected_witness:
  "map_of LIVE_SIGNALS ''nope'' = None
   \<and> py_float (\<lambda>s. None) (JFloat (Fin 1)) = Inr (Fin 1)
   \<and> encode_value_route (\<lambda>s. None)
        (Dict [''signal_id'' \<mapsto> JStr ''nope'', ''physical_value'' \<mapsto> JFloat (Fin 1)])
       = (Error_body ''Invalid signal ID'', 400)"
proof -
  have h: "\<forall>d s. Dict [''signal_id'' \<mapsto> JStr ''nope'', ''physical_value'' \<mapsto> JFloat (Fin 1)] = Dict d
        \<longrightarrow> d ''signal_id'' = Some (JStr s) \<longrightarrow> map_of LIVE_SIGNALS s = None"
    using live_unknown by auto
  have p: "py_float (\<lambda>s. None) (JFloat (Fin 1)) = Inr (Fin 1)"
    by (simp add: py_float_def)
  from unknown_signal_is_rejected [OF h, of "\<lambda>s. None"] p
  have "encode_value_route (\<lambda>s. None)
        (Dict [''signal_id'' \<mapsto> JStr ''nope'', ''physical_value'' \<mapsto> JFloat (Fin 1)])
       = (Error_body ''Invalid signal ID'', 400)"
    by (simp add: get_default_def)
  with p live_unknown show ?thesis by blast
qed

theorem unknown_signal_other_error_counterexample:
  "map_of LIVE_SIGNALS ''nope'' = None
   \<and> encode_value_route (\<lambda>s. None)
        (Dict [''signal_id'' \<mapsto> JStr ''nope'', ''physical_value'' \<mapsto> JInt (2 ^ 1024)])
       = (Error_body ''int too large to convert to float'', 500)
   \<and> encode_value_route (\<lambda>s. None)
        (Dict [''signal_id'' \<mapsto> JStr ''nope'', ''physical_value'' \<mapsto> JNull])
       = (Error_body (''float() argument must be a string or a real number, not ''
                        @ quoted ''NoneType''), 500)"
proof -
  have b: "round_to_double (of_int (2 ^ 1024)) = PInf"
    using round_to_double_cert [of "2 ^ 1024" 1024] by (simp add: round_half_even_def)
  show ?thesis
    using b live_unknown
    by (simp add: encode_value_route_def py_float_def get_default_def)
qed

section \<open>The reconstruction error\<close>

lemma round_half_even_bounds:
  "of_int (round_half_even q) \<le> q + 1 / 2 \<and> q - 1 / 2 \<le> of_int (round_half_even q)"
proof -
  define f where "f = \<lfloor>q\<rfloor>"
  have b: "of_int f \<le> q" "q < of_int f + 1" unfolding f_def by linarith+
  have r: "round_half_even q =
      (if q - of_int f < 1 / 2 then f else if 1 / 2 < q - of_int f then f + 1
       else if even f then f else f + 1)"
    by (simp only: round_half_even_def Let_def f_def)
  consider "q - of_int f < 1 / 2" | "1 / 2 < q - of_int f" | "q - of_int f = 1 / 2"
    by linarith
  then show ?thesis
  proof cases
    case 1
    then have "round_half_even q = f" using r by simp
    then show ?thesis using b 1 by simp
  next
    case 2
    then have "round_half_even q = f + 1" using r by simp
    then show ?thesis using b 2 by simp
  next
    case 3
    then have "round_half_even q = f \<or> round_half_even q = f + 1" using r by simp
    then show ?thesis using b 3 by auto
  qed
qed

lemma round_half_even_nonneg: "0 \<le> q \<Longrightarrow> 0 \<le> round_half_even q"
proof -
  assume "0 \<le> q"
  then have "- 1 < (of_int (round_half_even q) :: rat)"
    using round_half_even_bounds [of q] by linarith
  then have "(of_int (- 1) :: rat) < of_int (round_half_even q)" by simp
  then have "- 1 < round_half_even q" by (simp only: of_int_less_iff)
  then show ?thesis by simp
qed

lemma round_half_even_le:
  assumes "q < of_int N"
  shows "round_half_even q \<le> N"
proof -
  have "(of_int (round_half_even q) :: rat) < of_int N + 1"
    using round_half_even_bounds [of q] assms by linarith
  then have "(of_int (round_half_even q) :: rat) < of_int (N + 1)" by simp
  then have "round_half_even q < N + 1" by (simp only: of_int_less_iff)
  then show ?thesis by simp
qed

lemma round_to_double_exact_le:
  assumes m: "\<bar>m\<bar> \<le> 2 ^ 53" and e: "- 1074 \<le> e"
    and ov: "\<bar>of_int m * 2 powi e\<bar> < (2::rat) ^ 1024"
  shows "round_to_double (of_int m * 2 powi e) = Fin (of_int m * 2 powi e)"
proof (cases "\<bar>m\<bar> < 2 ^ 53")
  case True
  then show ?thesis using e ov by (rule round_to_double_exact)
next
  case False
  with m have "m = 2 ^ 53 \<or> m = - (2 ^ 53)" by (auto simp add: abs_if split: if_splits)
  then obtain h where h: "m = 2 * h" "\<bar>h\<bar> < 2 ^ 53"
  proof
    assume "m = 2 ^ 53"
    then have "m = 2 * 2 ^ 52" "\<bar>(2::int) ^ 52\<bar> < 2 ^ 53" by simp_all
    then show ?thesis by (rule that)
  next
    assume "m = - (2 ^ 53)"
    then have "m = 2 * (- (2 ^ 52))" "\<bar>- ((2::int) ^ 52)\<bar> < 2 ^ 53" by simp_all
    then show ?thesis by (rule that)
  qed
  have "(of_int m :: rat) * 2 powi e = of_int h * (2 * 2 powi e)" by (simp add: h(1))
  also have "(2::rat) * 2 powi e = 2 powi (e + 1)" by (simp add: power_int_add)
  finally have eq: "(of_int m :: rat) * 2 powi e = of_int h * 2 powi (e + 1)" .
  show ?thesis
    unfolding eq using h(2) e ov [unfolded eq]
    by (intro round_to_double_exact) auto
qed


lemma round_to_double_nonneg:
  assumes x0: "0 \<le> x" and xb: "x < 2 ^ 1000"
  shows "\<exists>m e. round_to_double x = Fin (of_int m * 2 powi e) \<and> 0 \<le> m \<and> m \<le> 2 ^ 53
           \<and> - 1074 \<le> e \<and> of_int m * 2 powi e \<le> 2 * x + 1"
proof (cases "x = 0")
  case True
  have "round_to_double x = Fin (of_int 0 * 2 powi 0)" using True by (simp add: round_to_double_def)
  then show ?thesis using True by (intro exI [of _ 0]) auto
next
  case False
  with x0 have xp: "0 < x" by simp
  define L where "L = flog2 x"
  define E where "E = max (L - 52) (- 1074)"
  define q where "q = x / 2 powi E"
  define M where "M = round_half_even q"
  have Lb: "2 powi L \<le> x" "x < 2 powi (L + 1)"
    using flog2_bounds [OF xp] by (simp_all add: L_def)
  have pE: "(0::rat) < 2 powi E" by simp
  have "(2::rat) powi (L + 1) \<le> 2 powi (53 + E)"
    by (intro power_int_increasing) (auto simp add: E_def)
  also have "\<dots> = 2 ^ 53 * 2 powi E" by (simp add: power_int_add)
  finally have "x < 2 ^ 53 * 2 powi E" using Lb(2) by simp
  then have "q < 2 ^ 53" unfolding q_def using pE by (simp add: pos_divide_less_eq)
  then have "q < of_int (2 ^ 53)" by simp
  then have M53: "M \<le> 2 ^ 53" unfolding M_def by (rule round_half_even_le)
  have q0: "0 \<le> q" unfolding q_def using x0 by simp
  then have M0: "0 \<le> M" unfolding M_def by (rule round_half_even_nonneg)
  have "(of_int M :: rat) \<le> q + 1 / 2" unfolding M_def using round_half_even_bounds by blast
  then have "of_int M * 2 powi E \<le> (q + 1 / 2) * 2 powi E"
    using pE by (intro mult_right_mono) auto
  also have "\<dots> = x + 2 powi E / 2" unfolding q_def by (simp add: field_simps)
  finally have y1: "of_int M * 2 powi E \<le> x + 2 powi E / 2" .
  have "(2::rat) powi (L - 52) \<le> 2 powi L" by (intro power_int_increasing) auto
  moreover have "(2::rat) powi (- 1074) \<le> 1" by (simp add: power_int_minus_divide)
  ultimately have "(2::rat) powi E \<le> x + 1"
    using Lb(1) x0 by (auto simp add: E_def max_def)
  with y1 x0 have y2: "of_int M * 2 powi E \<le> 2 * x + 1" by simp
  have "2 * x + 1 < (2::rat) ^ 1024" using xb by simp
  with y2 have nov: "\<not> (2::rat) ^ 1024 \<le> of_int M * 2 powi E" by linarith
  have "round_to_double x = Fin (of_int M * 2 powi E)"
    using xp nov
    by (simp add: round_to_double_def Let_def L_def [symmetric] E_def [symmetric]
          q_def [symmetric] M_def [symmetric])
  moreover have "- 1074 \<le> E" by (simp add: E_def)
  ultimately show ?thesis using M0 M53 y2 by blast
qed

lemma raw_of_scaled:
  assumes x0: "0 \<le> x" and xb: "x \<le> 2 ^ 20" and k: "k \<le> 10"
  shows "\<exists>d. round_to_double x = Fin d
           \<and> round_to_double (d / (1 / 2 ^ k)) = Fin (d / (1 / 2 ^ k))
           \<and> 0 \<le> round_half_even (d / (1 / 2 ^ k))
           \<and> \<bar>of_int (round_half_even (d / (1 / 2 ^ k))) * (1 / 2 ^ k) - d\<bar> \<le> (1 / 2 ^ k) / 2"
proof -
  have "x < 2 ^ 1000" using xb by (rule order_le_less_trans) simp
  from round_to_double_nonneg [OF x0 this]
  obtain m e where me: "round_to_double x = Fin (of_int m * 2 powi e)" "0 \<le> m" "m \<le> 2 ^ 53"
    "- 1074 \<le> e" "of_int m * 2 powi e \<le> 2 * x + 1" by blast
  define d :: rat where "d = of_int m * 2 powi e"
  define q where "q = d / (1 / 2 ^ k)"
  have d0: "0 \<le> d" unfolding d_def using me(2) by simp
  have qd: "q = d * 2 ^ k" by (simp add: q_def)
  have qe: "q = of_int m * 2 powi (e + int k)"
    unfolding qd d_def by (simp add: power_int_add)
  have "(2::rat) ^ k \<le> 2 ^ 10" using k by (intro power_increasing) auto
  then have "d * 2 ^ k \<le> (2 * 2 ^ 20 + 1) * 2 ^ 10"
    using me(5) xb d0 unfolding d_def [symmetric] by (intro mult_mono) auto
  also have "\<dots> < (2::rat) ^ 1024" by simp
  finally have "\<bar>q\<bar> < 2 ^ 1024" using d0 by (simp add: qd)
  then have ex: "round_to_double q = Fin q"
    unfolding qe using me(2,3,4) by (intro round_to_double_exact_le) auto
  have q0: "0 \<le> q" using d0 by (simp add: qd)
  have r0: "0 \<le> round_half_even q" using q0 by (rule round_half_even_nonneg)
  have "\<bar>of_int (round_half_even q) - q\<bar> \<le> 1 / 2"
    using round_half_even_bounds [of q] by linarith
  then have "\<bar>of_int (round_half_even q) - q\<bar> * (1 / 2 ^ k) \<le> (1 / 2) * (1 / 2 ^ k)"
    by (intro mult_right_mono) auto
  moreover have "\<bar>of_int (round_half_even q) - q\<bar> * (1 / 2 ^ k)
      = \<bar>of_int (round_half_even q) * (1 / 2 ^ k) - d\<bar>"
  proof -
    have p0: "(0::rat) < 1 / 2 ^ k" by simp
    have "of_int (round_half_even q) * (1 / 2 ^ k) - d
        = (of_int (round_half_even q) - q) * (1 / 2 ^ k)"
      unfolding qd by (simp add: algebra_simps)
    then have "\<bar>of_int (round_half_even q) * (1 / 2 ^ k) - d\<bar>
        = \<bar>of_int (round_half_even q) - q\<bar> * \<bar>1 / (2::rat) ^ k\<bar>"
      by (simp only: abs_mult)
    then show ?thesis using p0 by (simp only: abs_of_pos)
  qed
  ultimately have "\<bar>of_int (round_half_even q) * (1 / 2 ^ k) - d\<bar> \<le> (1 / 2 ^ k) / 2" by simp
  then show ?thesis
    using me(1) ex r0 unfolding d_def [symmetric] q_def by blast
qed

lemma physical_to_raw_scaled:
  assumes "off \<le> v" "v - off \<le> 2 ^ 20" "k \<le> 10"
  shows "\<exists>d raw. py_sub (Fin v) (Fin off) = Fin d
           \<and> physical_to_raw (Fin v) (Fin (1 / 2 ^ k)) (Fin off) = Inr raw
           \<and> \<bar>of_int raw * (1 / 2 ^ k) - d\<bar> \<le> (1 / 2 ^ k) / 2"
proof -
  have "0 \<le> v - off" using assms(1) by simp
  from raw_of_scaled [OF this assms(2,3)]
  obtain d where d: "round_to_double (v - off) = Fin d"
    "round_to_double (d / (1 / 2 ^ k)) = Fin (d / (1 / 2 ^ k))"
    "0 \<le> round_half_even (d / (1 / 2 ^ k))"
    "\<bar>of_int (round_half_even (d / (1 / 2 ^ k))) * (1 / 2 ^ k) - d\<bar> \<le> (1 / 2 ^ k) / 2"
    by blast
  have "physical_to_raw (Fin v) (Fin (1 / 2 ^ k)) (Fin off)
      = Inr (round_half_even (d / (1 / 2 ^ k)))"
    using d(1,2,3) by (simp add: physical_to_raw_def)
  then show ?thesis using d(1,4) by auto
qed

text \<open>
  Claim C6, as amended. For every live signal and every float \<open>v\<close> in
  \<open>[min_physical, max_physical]\<close>, \<open>physical_to_raw\<close> returns a raw value, and
  \<open>raw * resolution + offset\<close> is within \<open>resolution / 2\<close> of \<open>d + offset\<close>, where
  \<open>d\<close> is the float that the code computes for \<open>v - offset\<close>. When the offset is 0
  (\<open>engine_speed\<close>, \<open>vehicle_speed\<close>) \<open>d\<close> is \<open>v\<close>, and the reconstruction is within
  \<open>resolution / 2\<close> of \<open>v\<close>.
\<close>

theorem reconstruction_error:
  assumes c: "map_of LIVE_SIGNALS s = Some c"
    and f: "cfg_resolution c = Some (Fin res)" "cfg_offset c = Some (Fin off)"
      "cfg_min_physical c = Fin lo" "cfg_max_physical c = Fin hi"
    and v: "is_double v" "lo \<le> v" "v \<le> hi"
  shows "\<exists>d raw. py_sub (Fin v) (Fin off) = Fin d
           \<and> physical_to_raw (Fin v) (Fin res) (Fin off) = Inr raw
           \<and> \<bar>(of_int raw * res + off) - (d + off)\<bar> \<le> res / 2
           \<and> (off = 0 \<longrightarrow> \<bar>(of_int raw * res + off) - v\<bar> \<le> res / 2)"
proof -
  have z: "py_sub (Fin v) (Fin 0) = Fin v" using v(1) by (simp add: is_double_def)
  from live_signal_cases [OF c]
  consider "c = engine_speed" | "c = vehicle_speed" | "c = cab_temperature" | "c = driver_torque"
    by blast
  then show ?thesis
  proof cases
    case 1
    with f v have p: "res = 1 / 2 ^ 3" "off = 0" "off \<le> v" "v - off \<le> 2 ^ 20"
      by (simp_all add: engine_speed_def)
    from physical_to_raw_scaled [OF p(3,4), of 3] z show ?thesis unfolding p(1) p(2) by auto
  next
    case 2
    with f v have p: "res = 1 / 2 ^ 8" "off = 0" "off \<le> v" "v - off \<le> 2 ^ 20"
      by (simp_all add: vehicle_speed_def)
    from physical_to_raw_scaled [OF p(3,4), of 8] z show ?thesis unfolding p(1) p(2) by auto
  next
    case 3
    with f v have p: "res = 1 / 2 ^ 5" "off = - 273" "off \<le> v" "v - off \<le> 2 ^ 20"
      by (simp_all add: cab_temperature_def)
    from physical_to_raw_scaled [OF p(3,4), of 5] show ?thesis unfolding p(1) p(2) by auto
  next
    case 4
    with f v have p: "res = 1 / 2 ^ 0" "off = - 125" "off \<le> v" "v - off \<le> 2 ^ 20"
      by (simp_all add: driver_torque_def)
    from physical_to_raw_scaled [OF p(3,4), of 0] show ?thesis unfolding p(1) p(2) by auto
  qed
qed

lemma live_cab_temperature: "map_of LIVE_SIGNALS ''cab_temperature'' = Some cab_temperature"
  by (simp add: LIVE_SIGNALS_def)

theorem reconstruction_error_witness:
  "map_of LIVE_SIGNALS ''engine_speed'' = Some engine_speed
   \<and> cfg_resolution engine_speed = Some (Fin (1 / 8)) \<and> cfg_offset engine_speed = Some (Fin 0)
   \<and> cfg_min_physical engine_speed = Fin 0
   \<and> cfg_max_physical engine_speed = Fin (8031875 / 1000)
   \<and> is_double 1000 \<and> (0::rat) \<le> 1000 \<and> (1000::rat) \<le> 8031875 / 1000
   \<and> (\<exists>d raw. py_sub (Fin 1000) (Fin 0) = Fin d
         \<and> physical_to_raw (Fin 1000) (Fin (1 / 8)) (Fin 0) = Inr raw
         \<and> \<bar>(of_int raw * (1 / 8) + 0) - (1000::rat)\<bar> \<le> (1 / 8) / 2)"
proof -
  have d: "is_double 1000"
    unfolding is_double_def using round_to_double_exact [of 1000 0] by simp
  have f: "cfg_resolution engine_speed = Some (Fin (1 / 8))" "cfg_offset engine_speed = Some (Fin 0)"
    "cfg_min_physical engine_speed = Fin 0" "cfg_max_physical engine_speed = Fin (8031875 / 1000)"
    by (simp_all add: engine_speed_def)
  from reconstruction_error [OF live_engine_speed f d]
  have "\<exists>d raw. py_sub (Fin 1000) (Fin 0) = Fin d
         \<and> physical_to_raw (Fin 1000) (Fin (1 / 8)) (Fin 0) = Inr raw
         \<and> \<bar>(of_int raw * (1 / 8) + 0) - (1000::rat)\<bar> \<le> (1 / 8) / 2"
    by simp blast
  with d f live_engine_speed show ?thesis by simp
qed

theorem reconstruction_error_counterexample:
  "map_of LIVE_SIGNALS ''cab_temperature'' = Some cab_temperature
   \<and> cfg_resolution cab_temperature = Some (Fin (1 / 32))
   \<and> cfg_offset cab_temperature = Some (Fin (- 273))
   \<and> cfg_min_physical cab_temperature = Fin (- 273)
   \<and> cfg_max_physical cab_temperature = Fin 1735
   \<and> is_double (1000 + 1 / 64 + 1 / 2 ^ 43)
   \<and> (- 273 :: rat) \<le> 1000 + 1 / 64 + 1 / 2 ^ 43
   \<and> (1000 + 1 / 64 + 1 / 2 ^ 43 :: rat) \<le> 1735
   \<and> physical_to_raw (Fin (1000 + 1 / 64 + 1 / 2 ^ 43)) (Fin (1 / 32)) (Fin (- 273)) = Inr 40736
   \<and> \<not> \<bar>(of_int 40736 * (1 / 32) + (- 273)) - (1000 + 1 / 64 + 1 / 2 ^ 43 :: rat)\<bar> \<le> (1 / 32) / 2"
proof -
  have a: "is_double (1000 + 1 / 64 + 1 / 2 ^ 43)"
    unfolding is_double_def using round_to_double_exact [of 8796230461161473 "- 43"] by simp
  have b: "round_to_double (1000 + 1 / 64 + 1 / 2 ^ 43 - (- 273)) = Fin (1273 + 1 / 64)"
    using round_to_double_cert [of "1000 + 1 / 64 + 1 / 2 ^ 43 + 273" 10]
      round_half_even_half [of "81473 * 2 ^ 36"]
    by simp
  have c: "round_to_double ((1273 + 1 / 64) / (1 / 32)) = Fin (40736 + 1 / 2)"
    using round_to_double_exact [of 81473 "- 1"] by simp
  have d: "round_half_even (40736 + 1 / 2) = 40736"
    using round_half_even_half [of 40736] by simp
  have e: "physical_to_raw (Fin (1000 + 1 / 64 + 1 / 2 ^ 43)) (Fin (1 / 32)) (Fin (- 273))
      = Inr 40736"
    using b c d by (simp add: physical_to_raw_def)
  show ?thesis
    using a e live_cab_temperature by (simp add: cab_temperature_def)
qed

end
